theory Spec2Isabelle
  imports Main
begin

section \<open>JavaScript values used by VirtualizationUtils.ts\<close>

text \<open>
  Strings are character lists; a character stands for the code unit with the same number
  (the Latin-1 range). A value that may be \<^verbatim>\<open>undefined\<close> is an \<open>option\<close>, with
  \<open>None\<close> for \<^verbatim>\<open>undefined\<close>. The only exception the module can raise is the
  TypeError of a property read or method call on \<^verbatim>\<open>undefined\<close>.
\<close>

datatype error = TypeError

text \<open>\<^verbatim>\<open>xs[i]\<close>: the element, or \<^verbatim>\<open>undefined\<close> outside the array.\<close>

definition index :: "'a list \<Rightarrow> int \<Rightarrow> 'a option" where
  "index xs i = (if 0 \<le> i \<and> i < int (length xs) then Some (xs ! nat i) else None)"

text \<open>\<^verbatim>\<open>s.split(sep)\<close> for a one-character separator: never an empty array.\<close>

fun js_split :: "char \<Rightarrow> string \<Rightarrow> string list" where
  "js_split sep [] = [[]]"
| "js_split sep (c # cs) =
     (if c = sep then [] # js_split sep cs
      else (case js_split sep cs of [] \<Rightarrow> [[c]] | w # ws \<Rightarrow> (c # w) # ws))"

text \<open>
  \<^verbatim>\<open>s.toLowerCase()\<close> on the code units below 256: the letters A to Z, and the
  Latin-1 capitals 192 to 222 except the multiplication sign 215, move up by 32.
\<close>

definition toLowerChar :: "char \<Rightarrow> char" where
  "toLowerChar c =
     (let k = (of_char c :: nat)
      in if (65 \<le> k \<and> k \<le> 90) \<or> (192 \<le> k \<and> k \<le> 222 \<and> k \<noteq> 215)
         then char_of (k + 32) else c)"

definition toLowerCase :: "string \<Rightarrow> string" where
  "toLowerCase s = map toLowerChar s"

text \<open>String concatenation with a value that may be \<^verbatim>\<open>undefined\<close>.\<close>

definition toStr :: "string option \<Rightarrow> string" where
  "toStr v = (case v of None \<Rightarrow> ''undefined'' | Some s \<Rightarrow> s)"

text \<open>\<^verbatim>\<open>xs.findIndex(p)\<close>: the first index whose element satisfies \<open>p\<close>, or -1.\<close>

fun findIndex :: "('a \<Rightarrow> bool) \<Rightarrow> 'a list \<Rightarrow> int" where
  "findIndex p [] = -1"
| "findIndex p (x # xs) =
     (if p x then 0 else (let i = findIndex p xs in if i = -1 then -1 else i + 1))"

section \<open>Preview SQL\<close>

definition SCHEMA_MODEL_SUFFIX :: string where
  "SCHEMA_MODEL_SUFFIX = ''schemamodel''"

record ProjectedColumn =
  name :: string
  selected :: bool
  type' :: string

text \<open>The compositions of a view definition are not looked into.\<close>

typedecl Composition

record ViewDefinition =
  compositions :: "Composition list"
  isComplete :: bool
  keng__description :: string
  projectedColumns :: "ProjectedColumn list"
  sourcePaths :: "string list"
  viewName :: string

text \<open>\<^verbatim>\<open>sourcePath.split('/')[0].split('=')[1]\<close>\<close>

definition getConnectionName :: "string \<Rightarrow> error + string option" where
  "getConnectionName sourcePath =
     (case index (js_split CHR ''/'' sourcePath) 0 of
        None \<Rightarrow> Inl TypeError
      | Some seg \<Rightarrow> Inr (index (js_split CHR ''='' seg) 1))"

text \<open>\<^verbatim>\<open>segments[segments.length - 1].split('=')[1]\<close>\<close>

definition getNodeName :: "string \<Rightarrow> error + string option" where
  "getNodeName sourcePath =
     (let segments = js_split CHR ''/'' sourcePath
      in case index segments (int (length segments) - 1) of
           None \<Rightarrow> Inl TypeError
         | Some seg \<Rightarrow> Inr (index (js_split CHR ''='' seg) 1))"

text \<open>
  The connection name is read first and \<^verbatim>\<open>toLowerCase\<close> is called on it, which
  throws when it is \<^verbatim>\<open>undefined\<close>; the node name is only concatenated.
\<close>

definition getPreviewTableName :: "string \<Rightarrow> error + string" where
  "getPreviewTableName sourcePath =
     (case getConnectionName sourcePath of
        Inl e \<Rightarrow> Inl e
      | Inr None \<Rightarrow> Inl TypeError
      | Inr (Some conn) \<Rightarrow>
          (case getNodeName sourcePath of
             Inl e \<Rightarrow> Inl e
           | Inr node \<Rightarrow> Inr (toLowerCase conn @ SCHEMA_MODEL_SUFFIX @ ''.'' @ toStr node)))"

text \<open>\<^verbatim>\<open>if (sourcePath)\<close> is false for \<^verbatim>\<open>undefined\<close> and for the empty string.\<close>

definition getPreviewSql :: "'a ViewDefinition_scheme \<Rightarrow> error + string" where
  "getPreviewSql viewDefinition =
     (case index (sourcePaths viewDefinition) 0 of
        None \<Rightarrow> Inr ''''
      | Some sourcePath \<Rightarrow>
          if sourcePath \<noteq> ''''
          then (case getPreviewTableName sourcePath of
                  Inl e \<Rightarrow> Inl e
                | Inr t \<Rightarrow> Inr (''SELECT * FROM '' @ t @ '';''))
          else Inr '''')"

section \<open>Publishing details\<close>

record RestDataService =
  publishedState :: string
  publishLogUrl :: "string option"

record VirtualizationPublishingDetails =
  state :: string
  stepNumber :: int
  stepText :: string
  stepTotal :: int
  logUrl :: "string option"

text \<open>
  \<^verbatim>\<open>if (virtualization.publishLogUrl)\<close> is false for \<^verbatim>\<open>undefined\<close> and for
  the empty string.
\<close>

definition getPublishingDetails ::
  "'a RestDataService_scheme \<Rightarrow> VirtualizationPublishingDetails" where
  "getPublishingDetails virtualization =
     (let publishStepDetails =
            \<lparr>state = publishedState virtualization, stepNumber = 0, stepText = '''',
             stepTotal = 4, logUrl = None\<rparr>;
          publishStepDetails =
            (if publishedState virtualization = ''CONFIGURING''
             then publishStepDetails\<lparr>stepNumber := 1, stepText := ''Configuring''\<rparr>
             else if publishedState virtualization = ''BUILDING''
             then publishStepDetails\<lparr>stepNumber := 2, stepText := ''Building''\<rparr>
             else if publishedState virtualization = ''DEPLOYING''
             then publishStepDetails\<lparr>stepNumber := 3, stepText := ''Deploying''\<rparr>
             else if publishedState virtualization = ''RUNNING''
             then publishStepDetails\<lparr>stepNumber := 4, stepText := ''Published''\<rparr>
             else publishStepDetails)
      in case publishLogUrl virtualization of
           None \<Rightarrow> publishStepDetails
         | Some url \<Rightarrow>
             if url \<noteq> '''' then publishStepDetails\<lparr>logUrl := Some url\<rparr>
             else publishStepDetails)"

section \<open>Connections\<close>

text \<open>
  Objects that are mutated or shared live in a store: a list indexed by the object's
  reference. A reference handed to a function is taken to point into the store.
\<close>

type_synonym ref = nat

datatype DvConnectionStatus = ACTIVE | INACTIVE

datatype DvConnectionSelection = SELECTED | NOTSELECTED

fun statusValue :: "DvConnectionStatus \<Rightarrow> string" where
  "statusValue ACTIVE = ''ACTIVE''"
| "statusValue INACTIVE = ''INACTIVE''"

fun selectionValue :: "DvConnectionSelection \<Rightarrow> string" where
  "selectionValue SELECTED = ''SELECTED''"
| "selectionValue NOTSELECTED = ''NOTSELECTED''"

text \<open>Of a connection only the name and the options object are used.\<close>

record Connection =
  name :: string
  options :: "(string \<times> string) list option"

record VirtualizationSourceStatus =
  sourceName :: string
  vdbState :: string
  schemaState :: string

text \<open>
  The loop of \<^verbatim>\<open>generateDvConnections\<close>: \<open>conns\<close> are the references still to
  visit, \<open>dvConns\<close> the array built so far, \<open>h\<close> the store of connection objects.
\<close>

fun generateDvConnections_loop ::
  "'a Connection_scheme list \<Rightarrow> ref list \<Rightarrow> 'b VirtualizationSourceStatus_scheme list \<Rightarrow>
   string \<Rightarrow> ref list \<Rightarrow> 'a Connection_scheme list \<times> ref list" where
  "generateDvConnections_loop h [] virtualizationsSourceStatuses selectedConn dvConns =
     (h, dvConns)"
| "generateDvConnections_loop h (conn # conns) virtualizationsSourceStatuses selectedConn dvConns =
     (let virtSrcStatus =
            find (\<lambda>virtStatus. sourceName virtStatus = Connection.name (h ! conn))
              virtualizationsSourceStatuses;
          connStatus =
            (case virtSrcStatus of
               None \<Rightarrow> INACTIVE
             | Some v \<Rightarrow>
                 if vdbState v = ''ACTIVE'' \<and> schemaState v = ''ACTIVE'' then ACTIVE
                 else INACTIVE);
          selectionState =
            (if Connection.name (h ! conn) = selectedConn then SELECTED else NOTSELECTED);
          h' = h[conn := (h ! conn)
                 \<lparr>options := Some [(''dvStatus'', statusValue connStatus),
                                   (''dvSelected'', selectionValue selectionState)]\<rparr>]
      in generateDvConnections_loop h' conns virtualizationsSourceStatuses selectedConn
           (dvConns @ [conn]))"

definition generateDvConnections ::
  "'a Connection_scheme list \<Rightarrow> ref list \<Rightarrow> 'b VirtualizationSourceStatus_scheme list \<Rightarrow>
   string \<Rightarrow> 'a Connection_scheme list \<times> ref list" where
  "generateDvConnections h conns virtualizationsSourceStatuses selectedConn =
     generateDvConnections_loop h conns virtualizationsSourceStatuses selectedConn []"

section \<open>Schema trees and view infos\<close>

text \<open>
  A schema node's children are references to nodes; a child, like the node handed to the
  traversal, may be null (\<open>None\<close>), and the children array may be absent.
\<close>

record SchemaNode =
  name :: string
  connectionName :: string
  path :: string
  queryable :: bool
  children :: "ref option list option"

text \<open>
  A view info holds a reference to its \<^verbatim>\<open>nodePath\<close> array and a reference to its
  source node.
\<close>

record ViewInfo =
  connectionName :: string
  isUpdate :: bool
  nodePath :: ref
  selected :: bool
  viewName :: string
  viewSourceNode :: ref

text \<open>
  The state of a traversal: the schema nodes and the string arrays of the store, and the
  contents of the caller's \<^verbatim>\<open>viewInfos\<close> array.
\<close>

record heap =
  nodes :: "SchemaNode list"
  arrays :: "string list list"
  viewInfos :: "ViewInfo list"

text \<open>\<^verbatim>\<open>arr.push(seg)\<close> on the array at \<open>a\<close>.\<close>

definition push :: "ref \<Rightarrow> string \<Rightarrow> heap \<Rightarrow> heap" where
  "push a seg st = st\<lparr>arrays := (arrays st)[a := arrays st ! a @ [seg]]\<rparr>"

text \<open>A \<^verbatim>\<open>for ... of\<close> loop whose body may not return.\<close>

fun forEach :: "('a \<Rightarrow> 's \<Rightarrow> 's option) \<Rightarrow> 'a list \<Rightarrow> 's \<Rightarrow> 's option" where
  "forEach body [] s = Some s"
| "forEach body (x # xs) s =
     (case body x s of None \<Rightarrow> None | Some s' \<Rightarrow> forEach body xs s')"

text \<open>
  \<^verbatim>\<open>generateViewInfos\<close>. The recursion follows references through the store, so it
  carries fuel for the call depth: \<open>None\<close> means the fuel ran out. The array
  \<^verbatim>\<open>sourcePath\<close> is allocated at the end of the store, filled from the array at
  \<open>nodePath'\<close>, stored in the view info by reference, and extended afterwards.
\<close>

fun generateViewInfos ::
  "nat \<Rightarrow> heap \<Rightarrow> ref option \<Rightarrow> ref \<Rightarrow> string list \<Rightarrow> string list \<Rightarrow> heap option" where
  "generateViewInfos 0 st schemaNode nodePath' selectedViewNames existingViewNames = None"
| "generateViewInfos (Suc fuel) st None nodePath' selectedViewNames existingViewNames = Some st"
| "generateViewInfos (Suc fuel) st (Some a) nodePath' selectedViewNames existingViewNames =
     (let schemaNode = nodes st ! a;
          sourcePath = length (arrays st);
          st = st\<lparr>arrays := arrays st @ [[]]\<rparr>;
          st = foldl (\<lambda>s seg. push sourcePath seg s) st (arrays st ! nodePath');
          st =
            (if queryable schemaNode
             then
               (let vwName = SchemaNode.connectionName schemaNode @ ''_'' @
                       SchemaNode.name schemaNode;
                    selectedState =
                      (if findIndex (\<lambda>viewName. viewName = vwName) selectedViewNames = -1
                       then False else True);
                    hasExistingView =
                      (if findIndex (\<lambda>viewName. viewName = vwName) existingViewNames = -1
                       then False else True);
                    view =
                      \<lparr>connectionName = SchemaNode.connectionName schemaNode,
                       isUpdate = hasExistingView,
                       nodePath = sourcePath,
                       selected = selectedState,
                       viewName = vwName,
                       viewSourceNode = a\<rparr>
                in st\<lparr>viewInfos := viewInfos st @ [view]\<rparr>)
             else st);
          st = push sourcePath (SchemaNode.name schemaNode) st
      in case children schemaNode of
           None \<Rightarrow> Some st
         | Some cs \<Rightarrow>
             if length cs > 0
             then forEach
                    (\<lambda>childNode s.
                       generateViewInfos fuel s childNode sourcePath selectedViewNames
                         existingViewNames)
                    cs st
             else Some st)"

text \<open>
  The nodes reached from a reference, parent before children and children in array order,
  when the store holds a finite tree there of depth below the fuel; \<open>None\<close>
  otherwise. The references are distinct exactly when no node is shared.
\<close>

fun preorder :: "nat \<Rightarrow> SchemaNode list \<Rightarrow> ref option \<Rightarrow> ref list option" where
  "preorder 0 ns r = None"
| "preorder (Suc k) ns None = Some []"
| "preorder (Suc k) ns (Some a) =
     (if a < length ns
      then (case children (ns ! a) of
              None \<Rightarrow> Some [a]
            | Some cs \<Rightarrow>
                map_option (\<lambda>xss. a # concat xss) (those (map (preorder k ns) cs)))
      else None)"

section \<open>View editor states\<close>

record ViewEditorState =
  id' :: string
  viewDefinition :: ViewDefinition

text \<open>
  The loop of \<^verbatim>\<open>generateViewEditorStates\<close>; \<open>ns\<close> are the schema nodes of the
  store, read through \<^verbatim>\<open>viewInfo.viewSourceNode.path\<close>.
\<close>

fun generateViewEditorStates_loop ::
  "SchemaNode list \<Rightarrow> string \<Rightarrow> ViewInfo list \<Rightarrow> ViewEditorState list \<Rightarrow>
   ViewEditorState list" where
  "generateViewEditorStates_loop ns serviceVdbName [] editorStates = editorStates"
| "generateViewEditorStates_loop ns serviceVdbName (viewInfo # rest) editorStates =
     (let srcPaths = [];
          path = ''connection='' @ ViewInfo.connectionName viewInfo @ ''/'' @
                 SchemaNode.path (ns ! viewSourceNode viewInfo);
          srcPaths = srcPaths @ [path];
          projCols = [];
          projCol = \<lparr>ProjectedColumn.name = ''ALL'', ProjectedColumn.selected = True,
                     type' = ''ALL''\<rparr>;
          projCols = projCols @ [projCol];
          viewDefn =
            \<lparr>compositions = [],
             isComplete = True,
             keng__description = ViewInfo.viewName viewInfo @ '' description'',
             projectedColumns = projCols,
             sourcePaths = srcPaths,
             ViewDefinition.viewName = ViewInfo.viewName viewInfo\<rparr>;
          editorState =
            \<lparr>id' = serviceVdbName @ ''.'' @ ViewInfo.viewName viewInfo,
             viewDefinition = viewDefn\<rparr>
      in generateViewEditorStates_loop ns serviceVdbName rest (editorStates @ [editorState]))"

definition generateViewEditorStates ::
  "SchemaNode list \<Rightarrow> string \<Rightarrow> ViewInfo list \<Rightarrow> ViewEditorState list" where
  "generateViewEditorStates ns serviceVdbName viewInfos' =
     generateViewEditorStates_loop ns serviceVdbName viewInfos' []"

section \<open>Structured paths, as the code splits them\<close>

text \<open>
  The first and the last \<open>/\<close>-delimited segment of a path, and element 1 of a segment
  split on \<open>=\<close>: the part between its first \<open>=\<close> and the next one (or the end of
  the segment), absent when the segment has no \<open>=\<close>. These describe what the path
  functions compute and are used to reason about them.
\<close>

definition firstSegment :: "string \<Rightarrow> string" where
  "firstSegment p = takeWhile (\<lambda>c. c \<noteq> CHR ''/'') p"

definition lastSegment :: "string \<Rightarrow> string" where
  "lastSegment p = rev (takeWhile (\<lambda>c. c \<noteq> CHR ''/'') (rev p))"

definition segmentValue :: "string \<Rightarrow> string option" where
  "segmentValue seg =
     (if CHR ''='' \<in> set seg
      then Some (takeWhile (\<lambda>c. c \<noteq> CHR ''='') (tl (dropWhile (\<lambda>c. c \<noteq> CHR ''='') seg)))
      else None)"

section \<open>Connection options, as the specification reads them\<close>

text \<open>
  The options written for a connection named \<open>nm\<close>: the status is ACTIVE when the
  first status record with that source name exists and has both states ACTIVE, and
  INACTIVE otherwise; the selection is SELECTED when \<open>nm\<close> is the selected name, and
  NOTSELECTED otherwise.
\<close>

definition dvOptions ::
  "'b VirtualizationSourceStatus_scheme list \<Rightarrow> string \<Rightarrow> string \<Rightarrow> (string \<times> string) list" where
  "dvOptions sourceStatuses selectedName nm =
     [(''dvStatus'',
       if \<exists>s. find (\<lambda>s. sourceName s = nm) sourceStatuses = Some s \<and>
              vdbState s = ''ACTIVE'' \<and> schemaState s = ''ACTIVE''
       then ''ACTIVE'' else ''INACTIVE''),
      (''dvSelected'', if nm = selectedName then ''SELECTED'' else ''NOTSELECTED'')]"

section \<open>View infos, as the specification reads them\<close>

text \<open>
  A view info describes its source node when the node is queryable, the view name is the
  node's connection name, an underscore and the node's name, and the flags tell whether
  that view name is among the selected names and among the existing names.
\<close>

definition describes :: "SchemaNode list \<Rightarrow> string list \<Rightarrow> string list \<Rightarrow> ViewInfo \<Rightarrow> bool" where
  "describes ns selectedNames existingNames v =
     (let n = ns ! viewSourceNode v
      in queryable n \<and>
         ViewInfo.viewName v = SchemaNode.connectionName n @ ''_'' @ SchemaNode.name n \<and>
         ViewInfo.connectionName v = SchemaNode.connectionName n \<and>
         ViewInfo.selected v = (ViewInfo.viewName v \<in> set selectedNames) \<and>
         isUpdate v = (ViewInfo.viewName v \<in> set existingNames))"

text \<open>
  The state in which \<^verbatim>\<open>generateViewInfos\<close> reaches its loop over the children of
  the node at \<open>a\<close>: the body of the function up to that loop, used to reason about it.
\<close>

definition enter :: "heap \<Rightarrow> ref \<Rightarrow> ref \<Rightarrow> string list \<Rightarrow> string list \<Rightarrow> heap" where
  "enter st a nodePath' selectedViewNames existingViewNames =
     (let schemaNode = nodes st ! a;
          sourcePath = length (arrays st);
          st = st\<lparr>arrays := arrays st @ [[]]\<rparr>;
          st = foldl (\<lambda>s seg. push sourcePath seg s) st (arrays st ! nodePath');
          st =
            (if queryable schemaNode
             then
               (let vwName = SchemaNode.connectionName schemaNode @ ''_'' @
                       SchemaNode.name schemaNode;
                    selectedState =
                      (if findIndex (\<lambda>viewName. viewName = vwName) selectedViewNames = -1
                       then False else True);
                    hasExistingView =
                      (if findIndex (\<lambda>viewName. viewName = vwName) existingViewNames = -1
                       then False else True);
                    view =
                      \<lparr>connectionName = SchemaNode.connectionName schemaNode,
                       isUpdate = hasExistingView,
                       nodePath = sourcePath,
                       selected = selectedState,
                       viewName = vwName,
                       viewSourceNode = a\<rparr>
                in st\<lparr>viewInfos := viewInfos st @ [view]\<rparr>)
             else st)
      in push sourcePath (SchemaNode.name schemaNode) st)"

text \<open>
  A store with a schema tree: a root that is not queryable, with a schema of one table, a
  null child, and a table.
\<close>

definition exampleNodes :: "SchemaNode list" where
  "exampleNodes =
     [\<lparr>SchemaNode.name = ''root'', SchemaNode.connectionName = ''conn'',
       path = ''connection=conn'', queryable = False,
       children = Some [Some 1, None, Some 3]\<rparr>,
      \<lparr>SchemaNode.name = ''s1'', SchemaNode.connectionName = ''conn'',
       path = ''connection=conn/schema=s1'', queryable = True, children = Some [Some 2]\<rparr>,
      \<lparr>SchemaNode.name = ''t1'', SchemaNode.connectionName = ''conn'',
       path = ''connection=conn/schema=s1/table=t1'', queryable = True, children = None\<rparr>,
      \<lparr>SchemaNode.name = ''t2'', SchemaNode.connectionName = ''conn'',
       path = ''connection=conn/table=t2'', queryable = True, children = Some []\<rparr>]"

section \<open>Properties of the path functions\<close>

lemma js_split_not_Nil: "js_split sep s \<noteq> []"
  by (induction s) (auto split: list.splits)

lemma index_0: "index xs 0 = (case xs of [] \<Rightarrow> None | x # _ \<Rightarrow> Some x)"
  by (cases xs) (simp_all add: index_def)

lemma index_last: "xs \<noteq> [] \<Longrightarrow> index xs (int (length xs) - 1) = Some (last xs)"
  by (cases xs rule: rev_cases) (simp_all add: index_def nat_diff_distrib')

lemma index_1: "index xs 1 = (case xs of x # y # _ \<Rightarrow> Some y | _ \<Rightarrow> None)"
  by (cases xs; cases "tl xs") (auto simp add: index_def)

lemma js_split_decomp:
  "js_split sep s =
     takeWhile (\<lambda>c. c \<noteq> sep) s #
       (case dropWhile (\<lambda>c. c \<noteq> sep) s of [] \<Rightarrow> [] | _ # r \<Rightarrow> js_split sep r)"
  by (induction s) (auto split: list.splits simp: js_split_not_Nil)

lemma js_split_no_sep: "sep \<notin> set s \<Longrightarrow> js_split sep s = [s]"
  by (induction s) auto

lemma length_js_split: "length (js_split sep s) = Suc (length (filter (\<lambda>c. c = sep) s))"
  by (induction s) (auto split: list.splits simp: js_split_not_Nil)

lemma js_split_two: "sep \<in> set s \<Longrightarrow> \<exists>w v vs. js_split sep s = w # v # vs"
proof -
  assume "sep \<in> set s"
  then have "filter (\<lambda>c. c = sep) s \<noteq> []"
    by (simp add: filter_empty_conv)
  then have "2 \<le> length (js_split sep s)"
    by (cases "filter (\<lambda>c. c = sep) s") (simp_all add: length_js_split)
  then show ?thesis
    by (cases "js_split sep s"; cases "tl (js_split sep s)") auto
qed

lemma last_js_split: "last (js_split sep s) = rev (takeWhile (\<lambda>c. c \<noteq> sep) (rev s))"
proof (induction s)
  case Nil
  then show ?case by simp
next
  case (Cons c cs)
  show ?case
  proof (cases "sep \<in> set cs")
    case True
    then obtain w v vs where "js_split sep cs = w # v # vs"
      using js_split_two by blast
    with True Cons show ?thesis
      by (auto simp: takeWhile_append)
  next
    case False
    then show ?thesis
      by (auto simp: js_split_no_sep takeWhile_append)
  qed
qed

lemma index_1_js_split: "index (js_split CHR ''='' seg) 1 = segmentValue seg"
proof (cases "dropWhile (\<lambda>c. c \<noteq> CHR ''='') seg")
  case Nil
  then have "CHR ''='' \<notin> set seg"
    by (auto simp: dropWhile_eq_Nil_conv)
  then show ?thesis
    by (simp add: js_split_no_sep index_1 segmentValue_def)
next
  case (Cons d r)
  then have d: "d = CHR ''=''"
    using hd_dropWhile[of "\<lambda>c. c \<noteq> CHR ''=''" seg] by auto
  have mem: "CHR ''='' \<in> set seg"
    using Cons set_dropWhileD[of "CHR ''=''" "\<lambda>c. c \<noteq> CHR ''=''" seg] by (simp add: d)
  have "js_split CHR ''='' seg = takeWhile (\<lambda>c. c \<noteq> CHR ''='') seg # js_split CHR ''='' r"
    by (subst js_split_decomp) (simp add: Cons)
  also have "js_split CHR ''='' r = takeWhile (\<lambda>c. c \<noteq> CHR ''='') r #
      (case dropWhile (\<lambda>c. c \<noteq> CHR ''='') r of [] \<Rightarrow> [] | _ # r' \<Rightarrow> js_split CHR ''='' r')"
    by (rule js_split_decomp)
  finally have "index (js_split CHR ''='' seg) 1 = Some (takeWhile (\<lambda>c. c \<noteq> CHR ''='') r)"
    by (simp add: index_1)
  then show ?thesis
    by (simp add: segmentValue_def mem Cons)
qed

lemma getConnectionName_eq: "getConnectionName p = Inr (segmentValue (firstSegment p))"
proof -
  have "index (js_split CHR ''/'' p) 0 = Some (firstSegment p)"
    by (subst js_split_decomp) (simp add: index_0 firstSegment_def)
  then show ?thesis
    by (simp add: getConnectionName_def index_1_js_split)
qed

lemma getNodeName_eq: "getNodeName p = Inr (segmentValue (lastSegment p))"
  by (simp add: getNodeName_def Let_def index_last js_split_not_Nil last_js_split
      index_1_js_split lastSegment_def)

lemma segmentValue_plain:
  assumes "CHR ''='' \<notin> set k" and "CHR ''='' \<notin> set v"
  shows "segmentValue (k @ CHR ''='' # v) = Some v"
proof -
  have "dropWhile (\<lambda>c. c \<noteq> CHR ''='') (k @ CHR ''='' # v) = CHR ''='' # v"
    using assms(1) by (simp add: dropWhile_append)
  moreover have "takeWhile (\<lambda>c. c \<noteq> CHR ''='') v = v"
    using assms(2) by (auto simp: takeWhile_eq_all_conv)
  ultimately show ?thesis
    by (simp add: segmentValue_def)
qed

text \<open>
  C5 fails on the code. The comments of \<^verbatim>\<open>getConnectionName\<close> and
  \<^verbatim>\<open>getNodeName\<close> call the result the value of the first and of the last segment,
  but \<^verbatim>\<open>split('=')[1]\<close> splits on every \<open>=\<close>: where the value holds a further
  \<open>=\<close>, the name stops before it. On \<open>connection=a=b/table=t\<close> the connection
  name is \<open>a\<close>, not \<open>a=b\<close>, and on \<open>connection=c/table=x=y\<close> the node name
  is \<open>x\<close>, not \<open>x=y\<close>.
\<close>

theorem path_names_stop_at_second_equals:
  "getConnectionName ''connection=a=b/table=t'' = Inr (Some ''a'') \<and>
   getConnectionName ''connection=a=b/table=t'' \<noteq> Inr (Some ''a=b'') \<and>
   getNodeName ''connection=c/table=x=y'' = Inr (Some ''x'') \<and>
   getNodeName ''connection=c/table=x=y'' \<noteq> Inr (Some ''x=y'')"
  by (simp add: getConnectionName_eq getNodeName_eq segmentValue_def firstSegment_def
      lastSegment_def)

section \<open>Properties of the preview SQL\<close>










text \<open>
  C10. When \<open>sourcePaths\<close> is non-empty and its first element is the empty string,
  \<open>getPreviewSql\<close> returns the empty string, as it does when \<open>sourcePaths\<close> is empty:
  the branch depends on the first source path being absent or empty.
\<close>

theorem getPreviewSql_empty_first_path:
  "(sourcePaths vd = [] # ps \<longrightarrow> getPreviewSql vd = Inr []) \<and>
   (sourcePaths vd = [] \<longrightarrow> getPreviewSql vd = Inr [])"
  by (auto simp: getPreviewSql_def index_0)

theorem getPreviewSql_empty_first_path_witness:
  "getPreviewSql \<lparr>compositions = [], isComplete = True, keng__description = ''d'',
     projectedColumns = [], sourcePaths = ['''', ''connection=c/table=t''],
     ViewDefinition.viewName = ''v''\<rparr> = Inr '''' \<and>
   getPreviewSql \<lparr>compositions = [], isComplete = True, keng__description = ''d'',
     projectedColumns = [], sourcePaths = [], ViewDefinition.viewName = ''w''\<rparr> = Inr ''''"
  using getPreviewSql_empty_first_path[of "\<lparr>compositions = [], isComplete = True,
        keng__description = ''d'', projectedColumns = [],
        sourcePaths = ['''', ''connection=c/table=t''], ViewDefinition.viewName = ''v''\<rparr>"
        "[''connection=c/table=t'']"]
    getPreviewSql_empty_first_path[of "\<lparr>compositions = [], isComplete = True,
        keng__description = ''d'', projectedColumns = [], sourcePaths = [],
        ViewDefinition.viewName = ''w''\<rparr>"]
  by simp

section \<open>Properties of the publishing details\<close>

text \<open>
  C8. \<open>getPublishingDetails\<close> always reports 4 steps in total and the input's published
  state; CONFIGURING is step 1, BUILDING step 2, DEPLOYING step 3, RUNNING step 4, each
  with its fixed text, and any other state is step 0 with an empty text. A publish log URL
  of the input, a non-empty string, is the result's log URL.
\<close>

theorem getPublishingDetails_steps:
  "stepTotal (getPublishingDetails v) = 4 \<and>
   state (getPublishingDetails v) = publishedState v \<and>
   (publishedState v = ''CONFIGURING'' \<longrightarrow>
      stepNumber (getPublishingDetails v) = 1 \<and>
      stepText (getPublishingDetails v) = ''Configuring'') \<and>
   (publishedState v = ''BUILDING'' \<longrightarrow>
      stepNumber (getPublishingDetails v) = 2 \<and>
      stepText (getPublishingDetails v) = ''Building'') \<and>
   (publishedState v = ''DEPLOYING'' \<longrightarrow>
      stepNumber (getPublishingDetails v) = 3 \<and>
      stepText (getPublishingDetails v) = ''Deploying'') \<and>
   (publishedState v = ''RUNNING'' \<longrightarrow>
      stepNumber (getPublishingDetails v) = 4 \<and>
      stepText (getPublishingDetails v) = ''Published'') \<and>
   (publishedState v \<notin> {''CONFIGURING'', ''BUILDING'', ''DEPLOYING'', ''RUNNING''} \<longrightarrow>
      stepNumber (getPublishingDetails v) = 0 \<and> stepText (getPublishingDetails v) = '''') \<and>
   (publishLogUrl v = Some url \<and> url \<noteq> '''' \<longrightarrow> logUrl (getPublishingDetails v) = Some url)"
  by (simp add: getPublishingDetails_def Let_def split: option.split)

theorem getPublishingDetails_steps_witness:
  "stepNumber (getPublishingDetails
     \<lparr>publishedState = ''CONFIGURING'', publishLogUrl = Some ''http://log''\<rparr>) = 1 \<and>
   logUrl (getPublishingDetails
     \<lparr>publishedState = ''CONFIGURING'', publishLogUrl = Some ''http://log''\<rparr>) =
     Some ''http://log'' \<and>
   stepNumber (getPublishingDetails \<lparr>publishedState = ''BUILDING'', publishLogUrl = None\<rparr>) = 2 \<and>
   stepNumber (getPublishingDetails \<lparr>publishedState = ''DEPLOYING'', publishLogUrl = None\<rparr>) = 3 \<and>
   stepText (getPublishingDetails \<lparr>publishedState = ''RUNNING'', publishLogUrl = None\<rparr>) =
     ''Published'' \<and>
   stepNumber (getPublishingDetails \<lparr>publishedState = ''NOTFOUND'', publishLogUrl = None\<rparr>) = 0 \<and>
   stepText (getPublishingDetails \<lparr>publishedState = ''NOTFOUND'', publishLogUrl = None\<rparr>) = ''''"
  using getPublishingDetails_steps[of
          "\<lparr>publishedState = ''CONFIGURING'', publishLogUrl = Some ''http://log''\<rparr>"
          "''http://log''"]
        getPublishingDetails_steps[of "\<lparr>publishedState = ''BUILDING'', publishLogUrl = None\<rparr>"]
        getPublishingDetails_steps[of "\<lparr>publishedState = ''DEPLOYING'', publishLogUrl = None\<rparr>"]
        getPublishingDetails_steps[of "\<lparr>publishedState = ''RUNNING'', publishLogUrl = None\<rparr>"]
        getPublishingDetails_steps[of "\<lparr>publishedState = ''NOTFOUND'', publishLogUrl = None\<rparr>"]
  by simp

section \<open>Properties of the view editor states\<close>

lemma generateViewEditorStates_loop_map:
  "generateViewEditorStates_loop ns vdb vis acc =
     acc @ map (\<lambda>vi.
       \<lparr>id' = vdb @ ''.'' @ ViewInfo.viewName vi,
        viewDefinition =
          \<lparr>compositions = [],
           isComplete = True,
           keng__description = ViewInfo.viewName vi @ '' description'',
           projectedColumns =
             [\<lparr>ProjectedColumn.name = ''ALL'', ProjectedColumn.selected = True,
               type' = ''ALL''\<rparr>],
           sourcePaths =
             [''connection='' @ ViewInfo.connectionName vi @ ''/'' @
              SchemaNode.path (ns ! viewSourceNode vi)],
           ViewDefinition.viewName = ViewInfo.viewName vi\<rparr>\<rparr>) vis"
  by (induction vis arbitrary: acc) simp_all

text \<open>
  C3. \<open>generateViewEditorStates\<close> returns one editor state per view info, in the same
  order: its id is the virtualization name, a dot and the view name; its view definition
  has the view name, the single source path \<open>connection=\<close>, the connection name, a slash
  and the source node's path, the description made of the view name and \<open>description\<close>,
  the single projected column ALL of type ALL, selected, no compositions, and is complete.
\<close>

theorem generateViewEditorStates_map:
  "length (generateViewEditorStates ns vdb vis) = length vis \<and>
   generateViewEditorStates ns vdb vis =
     map (\<lambda>vi.
       \<lparr>id' = vdb @ ''.'' @ ViewInfo.viewName vi,
        viewDefinition =
          \<lparr>compositions = [],
           isComplete = True,
           keng__description = ViewInfo.viewName vi @ '' description'',
           projectedColumns =
             [\<lparr>ProjectedColumn.name = ''ALL'', ProjectedColumn.selected = True,
               type' = ''ALL''\<rparr>],
           sourcePaths =
             [''connection='' @ ViewInfo.connectionName vi @ ''/'' @
              SchemaNode.path (ns ! viewSourceNode vi)],
           ViewDefinition.viewName = ViewInfo.viewName vi\<rparr>\<rparr>) vis"
  by (simp add: generateViewEditorStates_def generateViewEditorStates_loop_map)

section \<open>Properties of the connection annotation\<close>

lemma generateDvConnections_loop_spec:
  "\<forall>a\<in>set conns. a < length h \<Longrightarrow>
   generateDvConnections_loop h conns sts sel dv = (h', dv') \<Longrightarrow>
   dv' = dv @ conns \<and> length h' = length h \<and>
   (\<forall>a<length h. h' ! a =
      (if a \<in> set conns
       then (h ! a)\<lparr>options := Some (dvOptions sts sel (Connection.name (h ! a)))\<rparr>
       else h ! a))"
proof (induction conns arbitrary: h dv)
  case Nil
  then show ?case by simp
next
  case (Cons c conns)
  let ?h1 = "h[c := (h ! c)\<lparr>options := Some (dvOptions sts sel (Connection.name (h ! c)))\<rparr>]"
  have opts: "[(''dvStatus'',
        statusValue
          (case find (\<lambda>virtStatus. sourceName virtStatus = Connection.name (h ! c)) sts of
             None \<Rightarrow> INACTIVE
           | Some v \<Rightarrow>
               if vdbState v = ''ACTIVE'' \<and> schemaState v = ''ACTIVE'' then ACTIVE
               else INACTIVE)),
       (''dvSelected'',
        selectionValue (if Connection.name (h ! c) = sel then SELECTED else NOTSELECTED))] =
      dvOptions sts sel (Connection.name (h ! c))"
    by (auto simp: dvOptions_def split: option.splits)
  have step: "generateDvConnections_loop ?h1 conns sts sel (dv @ [c]) = (h', dv')"
    using Cons.prems(2) unfolding opts[symmetric]
    by (simp add: Let_def)
  have valid: "\<forall>a\<in>set conns. a < length ?h1"
    using Cons.prems(1) by simp
  from Cons.IH[OF valid step]
  have ih: "dv' = (dv @ [c]) @ conns" "length h' = length ?h1"
    "\<forall>a<length ?h1. h' ! a =
      (if a \<in> set conns
       then (?h1 ! a)\<lparr>options := Some (dvOptions sts sel (Connection.name (?h1 ! a)))\<rparr>
       else ?h1 ! a)"
    by auto
  have c: "c < length h"
    using Cons.prems(1) by simp
  show ?case
  proof (intro conjI allI impI)
    show "dv' = dv @ c # conns" using ih(1) by simp
    show "length h' = length h" using ih(2) by simp
    fix a assume a: "a < length h"
    then have "h' ! a =
      (if a \<in> set conns
       then (?h1 ! a)\<lparr>options := Some (dvOptions sts sel (Connection.name (?h1 ! a)))\<rparr>
       else ?h1 ! a)"
      using ih(3) by simp
    then show "h' ! a =
      (if a \<in> set (c # conns)
       then (h ! a)\<lparr>options := Some (dvOptions sts sel (Connection.name (h ! a)))\<rparr>
       else h ! a)"
      using a c by (cases "a = c") (simp_all add: nth_list_update)
  qed
qed


text \<open>
  C6. For connections that are objects of the store, \<open>generateDvConnections\<close> returns
  the same references in the same order; the store keeps its size, every listed connection
  is the object it was with its options replaced by \<open>dvStatus\<close> and \<open>dvSelected\<close>
  as \<open>dvOptions\<close> gives them for its name, and every other object is untouched.
\<close>

theorem generateDvConnections_annotates:
  assumes "\<forall>a\<in>set conns. a < length h"
    and "generateDvConnections h conns sts sel = (h', dvConns)"
  shows "dvConns = conns \<and> length h' = length h \<and>
    (\<forall>a\<in>set conns.
       h' ! a = (h ! a)\<lparr>options := Some (dvOptions sts sel (Connection.name (h ! a)))\<rparr>) \<and>
    (\<forall>a<length h. a \<notin> set conns \<longrightarrow> h' ! a = h ! a)"
  using generateDvConnections_loop_spec[OF assms(1) assms(2)[unfolded generateDvConnections_def]]
    assms(1)
  by auto

theorem generateDvConnections_annotates_witness:
  "snd (generateDvConnections
     [\<lparr>Connection.name = ''c1'', options = None\<rparr>,
      \<lparr>Connection.name = ''c2'', options = Some [(''old'', ''x'')]\<rparr>,
      \<lparr>Connection.name = ''c3'', options = None\<rparr>]
     [1, 0]
     [\<lparr>sourceName = ''c1'', vdbState = ''ACTIVE'', schemaState = ''ACTIVE''\<rparr>] ''c1'') = [1, 0] \<and>
   fst (generateDvConnections
     [\<lparr>Connection.name = ''c1'', options = None\<rparr>,
      \<lparr>Connection.name = ''c2'', options = Some [(''old'', ''x'')]\<rparr>,
      \<lparr>Connection.name = ''c3'', options = None\<rparr>]
     [1, 0]
     [\<lparr>sourceName = ''c1'', vdbState = ''ACTIVE'', schemaState = ''ACTIVE''\<rparr>] ''c1'') ! 0 =
     \<lparr>Connection.name = ''c1'',
      options = Some [(''dvStatus'', ''ACTIVE''), (''dvSelected'', ''SELECTED'')]\<rparr> \<and>
   fst (generateDvConnections
     [\<lparr>Connection.name = ''c1'', options = None\<rparr>,
      \<lparr>Connection.name = ''c2'', options = Some [(''old'', ''x'')]\<rparr>,
      \<lparr>Connection.name = ''c3'', options = None\<rparr>]
     [1, 0]
     [\<lparr>sourceName = ''c1'', vdbState = ''ACTIVE'', schemaState = ''ACTIVE''\<rparr>] ''c1'') ! 1 =
     \<lparr>Connection.name = ''c2'',
      options = Some [(''dvStatus'', ''INACTIVE''), (''dvSelected'', ''NOTSELECTED'')]\<rparr> \<and>
   fst (generateDvConnections
     [\<lparr>Connection.name = ''c1'', options = None\<rparr>,
      \<lparr>Connection.name = ''c2'', options = Some [(''old'', ''x'')]\<rparr>,
      \<lparr>Connection.name = ''c3'', options = None\<rparr>]
     [1, 0]
     [\<lparr>sourceName = ''c1'', vdbState = ''ACTIVE'', schemaState = ''ACTIVE''\<rparr>] ''c1'') ! 2 =
     \<lparr>Connection.name = ''c3'', options = None\<rparr>"
proof -
  let ?h = "[\<lparr>Connection.name = ''c1'', options = None\<rparr>,
      \<lparr>Connection.name = ''c2'', options = Some [(''old'', ''x'')]\<rparr>,
      \<lparr>Connection.name = ''c3'', options = None\<rparr>]"
  let ?sts = "[\<lparr>sourceName = ''c1'', vdbState = ''ACTIVE'', schemaState = ''ACTIVE''\<rparr>]"
  let ?r = "generateDvConnections ?h [1, 0] ?sts ''c1''"
  have r: "?r = (fst ?r, snd ?r)"
    by simp
  have v: "\<forall>a\<in>set [1, 0]. a < length ?h"
    by simp
  have d1: "dvOptions ?sts ''c1'' ''c1'' =
      [(''dvStatus'', ''ACTIVE''), (''dvSelected'', ''SELECTED'')]"
    by (simp add: dvOptions_def)
  have d2: "dvOptions ?sts ''c1'' ''c2'' =
      [(''dvStatus'', ''INACTIVE''), (''dvSelected'', ''NOTSELECTED'')]"
    by (simp add: dvOptions_def)
  show ?thesis
    using generateDvConnections_annotates[OF v r] d1 d2
    by simp
qed

section \<open>Properties of the traversal\<close>

lemma findIndex_ge: "- 1 \<le> findIndex p xs"
  by (induction xs) (auto simp: Let_def)

lemma findIndex_none: "findIndex p xs = - 1 \<longleftrightarrow> (\<forall>x\<in>set xs. \<not> p x)"
proof (induction xs)
  case Nil
  then show ?case by simp
next
  case (Cons x xs)
  have "findIndex p xs + 1 \<noteq> - 1"
    using findIndex_ge[of p xs] by arith
  with Cons show ?case
    by (auto simp: Let_def)
qed

lemma nodes_push [simp]: "nodes (push a seg st) = nodes st"
  by (simp add: push_def)

lemma viewInfos_push [simp]: "viewInfos (push a seg st) = viewInfos st"
  by (simp add: push_def)

lemma nodes_foldl_push [simp]: "nodes (foldl (\<lambda>s seg. push a seg s) st segs) = nodes st"
  by (induction segs arbitrary: st) simp_all

lemma viewInfos_foldl_push [simp]:
  "viewInfos (foldl (\<lambda>s seg. push a seg s) st segs) = viewInfos st"
  by (induction segs arbitrary: st) simp_all

lemma forEach_Nil_guard:
  "(if length cs > 0 then forEach body cs st else Some st) = forEach body cs st"
  by (cases cs) simp_all

lemma generateViewInfos_Some:
  "generateViewInfos (Suc k) st (Some a) p sel ex =
     (case children (nodes st ! a) of
        None \<Rightarrow> Some (enter st a p sel ex)
      | Some cs \<Rightarrow>
          forEach (\<lambda>childNode s. generateViewInfos k s childNode (length (arrays st)) sel ex)
            cs (enter st a p sel ex))"
  by (simp add: enter_def Let_def forEach_Nil_guard split: option.split)

declare generateViewInfos.simps(3) [simp del]

lemma nodes_enter [simp]: "nodes (enter st a p sel ex) = nodes st"
  by (simp add: enter_def Let_def)

lemma viewInfos_enter:
  "\<exists>vs. viewInfos (enter st a p sel ex) = viewInfos st @ vs \<and>
        (\<forall>v\<in>set vs. describes (nodes st) sel ex v) \<and>
        map viewSourceNode vs = filter (\<lambda>a. queryable (nodes st ! a)) [a]"
  by (auto simp: enter_def Let_def describes_def findIndex_none)


lemma generateViewInfos_spec:
  "generateViewInfos k st r p sel ex = Some st' \<Longrightarrow>
     nodes st' = nodes st \<and>
     (\<exists>vs. viewInfos st' = viewInfos st @ vs \<and>
           (\<forall>v\<in>set vs. describes (nodes st) sel ex v) \<and>
           (\<forall>as. preorder k (nodes st) r = Some as \<longrightarrow>
              map viewSourceNode vs = filter (\<lambda>a. queryable (nodes st ! a)) as))"
proof (induction k arbitrary: st r p st')
  case 0
  then show ?case by simp
next
  case (Suc k)
  show ?case
  proof (cases r)
    case None
    with Suc.prems show ?thesis by simp
  next
    case (Some a)
    let ?ns = "nodes st"
    let ?q = "\<lambda>a. queryable (?ns ! a)"
    let ?sp = "length (arrays st)"
    let ?body = "\<lambda>childNode s. generateViewInfos k s childNode ?sp sel ex"
    have loop: "forEach ?body cs s = Some s' \<Longrightarrow> nodes s = ?ns \<Longrightarrow>
        nodes s' = ?ns \<and>
        (\<exists>vs. viewInfos s' = viewInfos s @ vs \<and>
              (\<forall>v\<in>set vs. describes ?ns sel ex v) \<and>
              (\<forall>xss. those (map (preorder k ?ns) cs) = Some xss \<longrightarrow>
                 map viewSourceNode vs = filter ?q (concat xss)))" for cs s s'
    proof (induction cs arbitrary: s)
      case Nil
      then show ?case by simp
    next
      case (Cons c cs)
      from Cons.prems(1) obtain s1 where
        c: "generateViewInfos k s c ?sp sel ex = Some s1" and rest: "forEach ?body cs s1 = Some s'"
        by (auto split: option.splits)
      from Suc.IH[OF c] Cons.prems(2) obtain vs1 where
        n1: "nodes s1 = ?ns" and v1: "viewInfos s1 = viewInfos s @ vs1"
        and d1: "\<forall>v\<in>set vs1. describes ?ns sel ex v"
        and o1: "\<forall>as. preorder k ?ns c = Some as \<longrightarrow> map viewSourceNode vs1 = filter ?q as"
        by auto
      from Cons.IH[OF rest n1] obtain vs2 where
        n2: "nodes s' = ?ns" and v2: "viewInfos s' = viewInfos s1 @ vs2"
        and d2: "\<forall>v\<in>set vs2. describes ?ns sel ex v"
        and o2: "\<forall>xss. those (map (preorder k ?ns) cs) = Some xss \<longrightarrow>
                   map viewSourceNode vs2 = filter ?q (concat xss)"
        by auto
      have "viewInfos s' = viewInfos s @ (vs1 @ vs2)"
        using v1 v2 by simp
      moreover have "\<forall>v\<in>set (vs1 @ vs2). describes ?ns sel ex v"
        using d1 d2 by auto
      moreover have "\<forall>xss. those (map (preorder k ?ns) (c # cs)) = Some xss \<longrightarrow>
          map viewSourceNode (vs1 @ vs2) = filter ?q (concat xss)"
        using o1 o2 by (auto split: option.splits)
      ultimately show ?case
        using n2 by blast
    qed
    obtain vs0 where
      e0: "viewInfos (enter st a p sel ex) = viewInfos st @ vs0"
      and d0: "\<forall>v\<in>set vs0. describes ?ns sel ex v"
      and o0: "map viewSourceNode vs0 = filter ?q [a]"
      using viewInfos_enter[of st a p sel ex] by blast
    show ?thesis
    proof (cases "children (?ns ! a)")
      case None
      then have "st' = enter st a p sel ex"
        using Suc.prems Some by (simp add: generateViewInfos_Some)
      then show ?thesis
        using e0 d0 o0 None Some by (auto split: if_splits)
    next
      case (Some cs)
      then have "forEach ?body cs (enter st a p sel ex) = Some st'"
        using Suc.prems \<open>r = Some a\<close> by (simp add: generateViewInfos_Some)
      from loop[OF this] obtain vs where
        n: "nodes st' = ?ns" and v: "viewInfos st' = viewInfos (enter st a p sel ex) @ vs"
        and d: "\<forall>v\<in>set vs. describes ?ns sel ex v"
        and o: "\<forall>xss. those (map (preorder k ?ns) cs) = Some xss \<longrightarrow>
                   map viewSourceNode vs = filter ?q (concat xss)"
        by auto
      have "viewInfos st' = viewInfos st @ (vs0 @ vs)"
        using v e0 by simp
      moreover have "\<forall>v\<in>set (vs0 @ vs). describes ?ns sel ex v"
        using d0 d by auto
      moreover have "\<forall>as. preorder (Suc k) ?ns r = Some as \<longrightarrow>
          map viewSourceNode (vs0 @ vs) = filter ?q as"
        using o o0 Some \<open>r = Some a\<close> by (auto split: if_splits)
      ultimately show ?thesis
        using n by blast
    qed
  qed
qed

lemma generateViewInfos_total:
  "preorder k (nodes st) r = Some as \<Longrightarrow> \<exists>st'. generateViewInfos k st r p sel ex = Some st'"
proof (induction k arbitrary: st r p as)
  case 0
  then show ?case by simp
next
  case (Suc k)
  show ?case
  proof (cases r)
    case None
    then show ?thesis by simp
  next
    case (Some a)
    let ?ns = "nodes st"
    let ?sp = "length (arrays st)"
    let ?body = "\<lambda>childNode s. generateViewInfos k s childNode ?sp sel ex"
    have loop: "those (map (preorder k ?ns) cs) = Some xss \<Longrightarrow> nodes s = ?ns \<Longrightarrow>
        \<exists>s'. forEach ?body cs s = Some s'" for cs xss s
    proof (induction cs arbitrary: s xss)
      case Nil
      then show ?case by simp
    next
      case (Cons c cs)
      from Cons.prems(1) obtain x xs where
        x: "preorder k ?ns c = Some x" and xs: "those (map (preorder k ?ns) cs) = Some xs"
        by (auto split: option.splits)
      from Suc.IH[of s c x ?sp] x Cons.prems(2) obtain s1 where
        s1: "generateViewInfos k s c ?sp sel ex = Some s1"
        by auto
      then have "nodes s1 = ?ns"
        using generateViewInfos_spec[OF s1] Cons.prems(2) by simp
      from Cons.IH[OF xs this] s1 show ?case
        by (auto split: option.splits)
    qed
    show ?thesis
    proof (cases "children (?ns ! a)")
      case None
      then show ?thesis
        using Some by (simp add: generateViewInfos_Some)
    next
      case (Some cs)
      then obtain xss where "those (map (preorder k ?ns) cs) = Some xss"
        using Suc.prems \<open>r = Some a\<close> by (auto split: if_splits)
      from loop[OF this, of "enter st a p sel ex"] show ?thesis
        using Some \<open>r = Some a\<close> by (simp add: generateViewInfos_Some)
    qed
  qed
qed


lemma count_filter_distinct:
  "distinct as \<Longrightarrow> a \<in> set as \<Longrightarrow>
   length (filter (\<lambda>b. b = a) (filter q as)) = (if q a then 1 else 0)"
  by (induction as) (auto simp: filter_empty_conv)

lemma count_sources:
  assumes "map f vs = filter q as" and "distinct as" and "a \<in> set as"
  shows "length (filter (\<lambda>v. f v = a) vs) = (if q a then 1 else 0)"
proof -
  have "length (filter (\<lambda>v. f v = a) vs) = length (filter (\<lambda>b. b = a) (map f vs))"
    by (induction vs) simp_all
  also have "\<dots> = length (filter (\<lambda>b. b = a) (filter q as))"
    by (simp only: assms(1))
  also have "\<dots> = (if q a then 1 else 0)"
    using assms(2,3) by (rule count_filter_distinct)
  finally show ?thesis .
qed

lemma preorder_exampleNodes: "preorder 3 exampleNodes (Some 0) = Some [0, 1, 2, 3]"
  by code_simp

text \<open>
  More fuel changes nothing: a tree that unfolds with some fuel unfolds to the same nodes
  with any larger fuel, so what holds on a tree holds for every fuel above its depth.
\<close>

lemma preorder_Suc:
  "preorder k ns r = Some as \<Longrightarrow> preorder (Suc k) ns r = Some as"
proof (induction k arbitrary: r as)
  case 0
  then show ?case by simp
next
  case (Suc k)
  show ?case
  proof (cases r)
    case None
    with Suc.prems show ?thesis by simp
  next
    case (Some a)
    have loop: "those (map (preorder k ns) cs) = Some xss \<Longrightarrow>
        those (map (preorder (Suc k) ns) cs) = Some xss" for cs xss
    proof (induction cs arbitrary: xss)
      case Nil
      then show ?case by simp
    next
      case (Cons c cs)
      from Cons.prems obtain x xs where
        x: "preorder k ns c = Some x" and xs: "those (map (preorder k ns) cs) = Some xs"
        and xss: "xss = x # xs"
        by (auto split: option.splits)
      from Suc.IH[OF x] Cons.IH[OF xs] xss show ?case
        by simp
    qed
    show ?thesis
    proof (cases "children (ns ! a)")
      case None
      with Suc.prems Some show ?thesis
        by (auto split: if_splits)
    next
      case (Some cs)
      with Suc.prems \<open>r = Some a\<close> obtain xss where
        "those (map (preorder k ns) cs) = Some xss" and "as = a # concat xss" and "a < length ns"
        by (auto split: if_splits)
      with loop[of cs xss] Some \<open>r = Some a\<close> show ?thesis
        by simp
    qed
  qed
qed

lemma preorder_fuel_mono:
  "preorder k ns r = Some as \<Longrightarrow> preorder (k + m) ns r = Some as"
  by (induction m) (simp_all add: preorder_Suc)

text \<open>
  C2. When the store holds a schema tree at \<open>r\<close>, \<open>generateViewInfos\<close> returns, and
  the view infos it appends have as source nodes, in order, exactly the queryable nodes of
  the tree in pre-order: a node that is not queryable is left out and its descendants are
  not, and a parent comes before its descendants. When no node is shared, every queryable
  node has exactly one view info and every other node has none.
\<close>

theorem generateViewInfos_preorder:
  assumes "preorder k (nodes st) r = Some as"
  shows "\<exists>st' vs. generateViewInfos k st r p sel ex = Some st' \<and>
           viewInfos st' = viewInfos st @ vs \<and>
           map viewSourceNode vs = filter (\<lambda>a. queryable (nodes st ! a)) as \<and>
           (distinct as \<longrightarrow>
              (\<forall>a\<in>set as. length (filter (\<lambda>v. viewSourceNode v = a) vs) =
                 (if queryable (nodes st ! a) then 1 else 0)))"
proof -
  from generateViewInfos_total[OF assms] obtain st' where
    st': "generateViewInfos k st r p sel ex = Some st'"
    by blast
  from generateViewInfos_spec[OF st'] assms obtain vs where
    vs: "viewInfos st' = viewInfos st @ vs"
      "map viewSourceNode vs = filter (\<lambda>a. queryable (nodes st ! a)) as"
    by blast
  have "distinct as \<longrightarrow>
          (\<forall>a\<in>set as. length (filter (\<lambda>v. viewSourceNode v = a) vs) =
             (if queryable (nodes st ! a) then 1 else 0))"
    using count_sources[OF vs(2)] by blast
  with st' vs show ?thesis
    by blast
qed

theorem generateViewInfos_preorder_witness:
  "\<exists>st' vs. generateViewInfos 3 \<lparr>nodes = exampleNodes, arrays = [[]], viewInfos = []\<rparr>
              (Some 0) 0 [] [] = Some st' \<and>
           viewInfos st' = vs \<and>
           map viewSourceNode vs = [1, 2, 3] \<and>
           length (filter (\<lambda>v. viewSourceNode v = 0) vs) = 0 \<and>
           length (filter (\<lambda>v. viewSourceNode v = 2) vs) = 1"
proof -
  let ?st = "\<lparr>nodes = exampleNodes, arrays = [[]], viewInfos = []\<rparr>"
  have p: "preorder 3 (nodes ?st) (Some 0) = Some [0, 1, 2, 3]"
    using preorder_exampleNodes by simp
  have q: "filter (\<lambda>a. queryable (nodes ?st ! a)) [0, 1, 2, 3] = [1, 2, 3]"
    by (simp add: exampleNodes_def)
  have q0: "\<not> queryable (nodes ?st ! 0)" and q2: "queryable (nodes ?st ! 2)"
    by (simp_all add: exampleNodes_def)
  have d: "distinct [0, 1, 2, 3 :: nat]"
    by simp
  from generateViewInfos_preorder[OF p, of 0 "[]" "[]"] obtain st' vs where
    r: "generateViewInfos 3 ?st (Some 0) 0 [] [] = Some st'"
      "viewInfos st' = viewInfos ?st @ vs"
      "map viewSourceNode vs = filter (\<lambda>a. queryable (nodes ?st ! a)) [0, 1, 2, 3]"
      "distinct [0, 1, 2, 3 :: nat] \<longrightarrow>
         (\<forall>a\<in>set [0, 1, 2, 3]. length (filter (\<lambda>v. viewSourceNode v = a) vs) =
            (if queryable (nodes ?st ! a) then 1 else 0))"
    by blast
  from r(4) d q0 q2 have
    "length (filter (\<lambda>v. viewSourceNode v = 0) vs) = 0"
    "length (filter (\<lambda>v. viewSourceNode v = 2) vs) = 1"
    by simp_all
  with r(1,2,3) q show ?thesis
    by simp
qed

text \<open>
  C7. When the store holds a schema tree at \<open>r\<close>, every queryable node of it is the
  source of an appended view info, and every appended view info has a queryable source
  node, the view name made of that node's connection name, an underscore and its name,
  \<open>selected\<close> true exactly when this view name is among the selected names, and
  \<open>isUpdate\<close> true exactly when it is among the existing names.
\<close>

theorem generateViewInfos_describes:
  assumes "preorder k (nodes st) r = Some as"
  shows "\<exists>st' vs. generateViewInfos k st r p sel ex = Some st' \<and>
           viewInfos st' = viewInfos st @ vs \<and>
           (\<forall>a\<in>set as. queryable (nodes st ! a) \<longrightarrow> (\<exists>v\<in>set vs. viewSourceNode v = a)) \<and>
           (\<forall>v\<in>set vs.
              queryable (nodes st ! viewSourceNode v) \<and>
              ViewInfo.viewName v =
                SchemaNode.connectionName (nodes st ! viewSourceNode v) @ ''_'' @
                SchemaNode.name (nodes st ! viewSourceNode v) \<and>
              ViewInfo.selected v = (ViewInfo.viewName v \<in> set sel) \<and>
              isUpdate v = (ViewInfo.viewName v \<in> set ex))"
proof -
  from generateViewInfos_total[OF assms] obtain st' where
    st': "generateViewInfos k st r p sel ex = Some st'"
    by blast
  from generateViewInfos_spec[OF st'] assms obtain vs where
    vs: "viewInfos st' = viewInfos st @ vs"
      "\<forall>v\<in>set vs. describes (nodes st) sel ex v"
      "map viewSourceNode vs = filter (\<lambda>a. queryable (nodes st ! a)) as"
    by blast
  have "\<forall>a\<in>set as. queryable (nodes st ! a) \<longrightarrow> (\<exists>v\<in>set vs. viewSourceNode v = a)"
  proof (intro ballI impI)
    fix a
    assume "a \<in> set as" and "queryable (nodes st ! a)"
    then have "a \<in> set (map viewSourceNode vs)"
      by (simp add: vs(3))
    then show "\<exists>v\<in>set vs. viewSourceNode v = a"
      by auto
  qed
  with st' vs(1,2) show ?thesis
    by (auto simp: describes_def Let_def)
qed

theorem generateViewInfos_describes_witness:
  "\<exists>st' vs. generateViewInfos 3 \<lparr>nodes = exampleNodes, arrays = [[]], viewInfos = []\<rparr>
              (Some 0) 0 [''conn_t1''] [''conn_t2'', ''t1''] = Some st' \<and>
           viewInfos st' = vs \<and>
           (\<exists>v\<in>set vs. viewSourceNode v = 2 \<and> ViewInfo.viewName v = ''conn_t1'' \<and>
              ViewInfo.selected v \<and> \<not> isUpdate v)"
proof -
  let ?st = "\<lparr>nodes = exampleNodes, arrays = [[]], viewInfos = []\<rparr>"
  have p: "preorder 3 (nodes ?st) (Some 0) = Some [0, 1, 2, 3]"
    using preorder_exampleNodes by simp
  have n2: "queryable (nodes ?st ! 2)"
    "SchemaNode.connectionName (nodes ?st ! 2) = ''conn''"
    "SchemaNode.name (nodes ?st ! 2) = ''t1''"
    by (simp_all add: exampleNodes_def)
  from generateViewInfos_describes[OF p, of 0 "[''conn_t1'']" "[''conn_t2'', ''t1'']"]
  obtain st' vs where
    r: "generateViewInfos 3 ?st (Some 0) 0 [''conn_t1''] [''conn_t2'', ''t1''] = Some st'"
      "viewInfos st' = viewInfos ?st @ vs"
      "\<forall>a\<in>set [0, 1, 2, 3]. queryable (nodes ?st ! a) \<longrightarrow> (\<exists>v\<in>set vs. viewSourceNode v = a)"
      "\<forall>v\<in>set vs.
         queryable (nodes ?st ! viewSourceNode v) \<and>
         ViewInfo.viewName v =
           SchemaNode.connectionName (nodes ?st ! viewSourceNode v) @ ''_'' @
           SchemaNode.name (nodes ?st ! viewSourceNode v) \<and>
         ViewInfo.selected v = (ViewInfo.viewName v \<in> set [''conn_t1'']) \<and>
         isUpdate v = (ViewInfo.viewName v \<in> set [''conn_t2'', ''t1''])"
    by blast
  from r(3) n2(1) obtain v where v: "v \<in> set vs" "viewSourceNode v = 2"
    by auto
  from r(4) v n2 have "ViewInfo.viewName v = ''conn_t1''" "ViewInfo.selected v" "\<not> isUpdate v"
    by auto
  with r(1,2) v show ?thesis
    by auto
qed

text \<open>
  C9. A call of \<open>generateViewInfos\<close> that returns leaves every schema node of the
  store as it was, and on a schema tree the call returns.
\<close>

theorem generateViewInfos_nodes_unchanged:
  "(generateViewInfos k st r p sel ex = Some st' \<longrightarrow> nodes st' = nodes st) \<and>
   (preorder k (nodes st) r = Some as \<longrightarrow>
      (\<exists>st''. generateViewInfos k st r p sel ex = Some st'' \<and> nodes st'' = nodes st))"
  using generateViewInfos_spec[of k st r p sel ex] generateViewInfos_total[of k st r as p sel ex]
  by blast

theorem generateViewInfos_nodes_unchanged_witness:
  "\<exists>st'. generateViewInfos 3 \<lparr>nodes = exampleNodes, arrays = [[]], viewInfos = []\<rparr>
              (Some 0) 0 [''conn_t1''] [] = Some st' \<and>
         nodes st' = exampleNodes"
  using generateViewInfos_nodes_unchanged[of 3
      "\<lparr>nodes = exampleNodes, arrays = [[]], viewInfos = []\<rparr>" "Some 0" 0 "[''conn_t1'']" "[]"
      _ "[0, 1, 2, 3]"] preorder_exampleNodes
  by auto

text \<open>
  C1 fails on the code. The view info holds the array \<^verbatim>\<open>sourcePath\<close> itself, and the
  node's name is pushed onto that array after the view info is emitted. For a queryable
  node without ancestors, visited with an empty path, the final \<^verbatim>\<open>nodePath\<close> is the
  node's own name; for the queryable child \<open>t1\<close> of a root \<open>root\<close> it is
  \<open>root\<close>, \<open>t1\<close>.
\<close>

theorem generateViewInfos_nodePath_own_name:
  "generateViewInfos 1
     \<lparr>nodes = [\<lparr>SchemaNode.name = ''t1'', SchemaNode.connectionName = ''conn'',
                path = ''connection=conn/table=t1'', queryable = True, children = Some []\<rparr>],
      arrays = [[]], viewInfos = []\<rparr> (Some 0) 0 [] [] =
   Some
     \<lparr>nodes = [\<lparr>SchemaNode.name = ''t1'', SchemaNode.connectionName = ''conn'',
                path = ''connection=conn/table=t1'', queryable = True, children = Some []\<rparr>],
      arrays = [[], [''t1'']],
      viewInfos = [\<lparr>ViewInfo.connectionName = ''conn'', isUpdate = False, nodePath = 1,
                    selected = False, viewName = ''conn_t1'', viewSourceNode = 0\<rparr>]\<rparr> \<and>
   generateViewInfos 2
     \<lparr>nodes = [\<lparr>SchemaNode.name = ''root'', SchemaNode.connectionName = ''conn'',
                path = ''connection=conn'', queryable = False, children = Some [Some 1]\<rparr>,
               \<lparr>SchemaNode.name = ''t1'', SchemaNode.connectionName = ''conn'',
                path = ''connection=conn/table=t1'', queryable = True, children = Some []\<rparr>],
      arrays = [[]], viewInfos = []\<rparr> (Some 0) 0 [] [] =
   Some
     \<lparr>nodes = [\<lparr>SchemaNode.name = ''root'', SchemaNode.connectionName = ''conn'',
                path = ''connection=conn'', queryable = False, children = Some [Some 1]\<rparr>,
               \<lparr>SchemaNode.name = ''t1'', SchemaNode.connectionName = ''conn'',
                path = ''connection=conn/table=t1'', queryable = True, children = Some []\<rparr>],
      arrays = [[], [''root''], [''root'', ''t1'']],
      viewInfos = [\<lparr>ViewInfo.connectionName = ''conn'', isUpdate = False, nodePath = 2,
                    selected = False, viewName = ''conn_t1'', viewSourceNode = 1\<rparr>]\<rparr>"
  by code_simp

end
